theory Spec2Isabelle
  imports Main
begin

section \<open>A TCP key-value server (server\_tcp.c)\<close>

text \<open>
  The server reads one request from an accepted connection, splits it with
  \<^verbatim>\<open>sscanf(buffer, "%15s %255s %767[^\n]", command, key, value)\<close>, and executes
  SET, GET or DEL against files of the working directory. The model below follows
  \<^verbatim>\<open>get_command_type\<close>, \<^verbatim>\<open>parse_message\<close> and \<^verbatim>\<open>handle_client\<close> line by line.
  Bytes are \<^typ>\<open>char\<close>, byte strings are \<^typ>\<open>string\<close>.
\<close>

subsection \<open>Constants of the source\<close>

definition BUFFER_SIZE :: nat where "BUFFER_SIZE = 1024"
definition MAX_KEY_LEN :: nat where "MAX_KEY_LEN = 256"
definition MAX_VALUE_LEN :: nat where "MAX_VALUE_LEN = 768"
definition MAX_COMMAND_LEN :: nat where "MAX_COMMAND_LEN = 16"

text \<open>\<^verbatim>\<open>EXIT_FAILURE\<close> and \<^verbatim>\<open>EOF\<close> come from the C library headers: 1 and -1.\<close>

definition EXIT_FAILURE :: int where "EXIT_FAILURE = 1"
definition EOF :: int where "EOF = - 1"

abbreviation NUL :: char where "NUL \<equiv> CHR 0x00"
abbreviation LF :: char where "LF \<equiv> CHR 0x0A"

subsection \<open>C strings and the C library\<close>

text \<open>
  A C string held in a byte array is the bytes before the first NUL.
\<close>

definition c_str :: "string \<Rightarrow> string" where
  "c_str bs = takeWhile (\<lambda>c. c \<noteq> NUL) bs"

text \<open>
  \<^verbatim>\<open>isspace\<close> in the "C" locale (the program never calls \<^verbatim>\<open>setlocale\<close>):
  space, \<^verbatim>\<open>\t\<close>, \<^verbatim>\<open>\n\<close>, \<^verbatim>\<open>\v\<close>, \<^verbatim>\<open>\f\<close>, \<^verbatim>\<open>\r\<close>.
\<close>

definition isspace :: "char \<Rightarrow> bool" where
  "isspace c \<longleftrightarrow>
     c = CHR 0x20 \<or> c = CHR 0x09 \<or> c = CHR 0x0A \<or> c = CHR 0x0B \<or> c = CHR 0x0C \<or> c = CHR 0x0D"

text \<open>A white-space directive of a scanf format: it skips any run of white space and never fails.\<close>

definition skip_ws :: "string \<Rightarrow> string" where
  "skip_ws s = dropWhile isspace s"

text \<open>
  The conversion \<^verbatim>\<open>%<w>s\<close>: leading white space is skipped, then the longest run of at
  most \<open>w\<close> bytes that are not white space is the input item. An empty item (only possible
  at the end of the input) is an input failure, \<open>None\<close>. The result is the item and the
  unread rest.
\<close>

definition scan_s :: "nat \<Rightarrow> string \<Rightarrow> (string \<times> string) option" where
  "scan_s w inp =
     (let s = skip_ws inp;
          item = takeWhile (\<lambda>c. \<not> isspace c) (take w s)
      in if item = [] then None else Some (item, drop (length item) s))"

text \<open>
  The conversion \<^verbatim>\<open>%<w>[^\n]\<close>: no white space is skipped; the input item is the longest
  run of at most \<open>w\<close> bytes other than \<^verbatim>\<open>\n\<close>. An empty item fails.
\<close>

definition scan_not_nl :: "nat \<Rightarrow> string \<Rightarrow> (string \<times> string) option" where
  "scan_not_nl w inp =
     (let item = takeWhile (\<lambda>c. c \<noteq> LF) (take w inp)
      in if item = [] then None else Some (item, drop (length item) inp))"

text \<open>
  \<^verbatim>\<open>sscanf(buffer, "%15s %255s %767[^\n]", command, key, value)\<close>. The result is the
  return value and the three destination arrays read as C strings; the arrays are
  zero-initialised by the caller, so an array that was not assigned holds the empty string.
  The return value is \<open>EOF\<close> when the input ends before the first conversion, otherwise the
  number of assigned items.
\<close>

definition sscanf :: "string \<Rightarrow> int \<times> string \<times> string \<times> string" where
  "sscanf buffer =
     (case scan_s 15 buffer of
        None \<Rightarrow> (EOF, [], [], [])
      | Some (command, r1) \<Rightarrow>
          (case scan_s 255 (skip_ws r1) of
             None \<Rightarrow> (1, command, [], [])
           | Some (key, r2) \<Rightarrow>
               (case scan_not_nl 767 (skip_ws r2) of
                  None \<Rightarrow> (2, command, key, [])
                | Some (val, r3) \<Rightarrow> (3, command, key, val))))"

text \<open>
  \<^verbatim>\<open>snprintf(dst, n, ...)\<close> stores at most \<open>n - 1\<close> bytes of the formatted text;
  \<^verbatim>\<open>write(client_socket, s, n)\<close> hands the first \<open>n\<close> bytes of \<open>s\<close> to the connection.
\<close>

definition snprintf :: "nat \<Rightarrow> string \<Rightarrow> string" where
  "snprintf n formatted = take (n - 1) formatted"

definition sock_write :: "string \<Rightarrow> nat \<Rightarrow> string" where
  "sock_write s n = take n s"

subsection \<open>The store: files of the working directory\<close>

text \<open>
  A record is a file named by its key. The store maps a path to the content of the regular
  file at that path; \<open>calls\<close> logs the file-system calls the server has made, oldest first.
  What the operating system decides (permissions, a full disk, a path that is a directory)
  is a parameter \<open>os_env\<close>: it says which calls succeed, and which paths are directories
  (\<^verbatim>\<open>.\<close> always is one on a real system). A directory can be opened read-only, but
  reading it fails. Paths are compared as byte strings: two spellings of one file
  (\<^verbatim>\<open>foo\<close>, \<^verbatim>\<open>./foo\<close>) are different entries. Devices and other special files are not
  modelled.
\<close>

datatype fs_call =
    Open_creat string
  | Write_fd string string
  | Open_rdonly string
  | Read_fd string
  | Remove string

record world =
  files :: "string \<rightharpoonup> string"
  calls :: "fs_call list"

record os_env =
  open_creat_ok :: "string \<Rightarrow> bool"
  open_rdonly_ok :: "string \<Rightarrow> bool"
  write_ret :: "nat \<Rightarrow> int"
  read_ok :: bool
  remove_ok :: "string \<Rightarrow> bool"
  is_directory :: "string \<Rightarrow> bool"

text \<open>
  \<^verbatim>\<open>open(key, O_WRONLY | O_CREAT | O_TRUNC, 0644)\<close>: on success the file exists and is
  empty. Whether it succeeds is the system's answer \<open>open_creat_ok\<close> (a real system
  refuses a directory). The descriptor is modelled by the path it refers to; \<open>None\<close> is a
  negative descriptor.
\<close>

definition sys_open_creat :: "os_env \<Rightarrow> world \<Rightarrow> string \<Rightarrow> string option \<times> world" where
  "sys_open_creat env w path =
     (let w' = w\<lparr>calls := calls w @ [Open_creat path]\<rparr>
      in if open_creat_ok env path then (Some path, w'\<lparr>files := (files w')(path \<mapsto> [])\<rparr>)
         else (None, w'))"

text \<open>
  \<^verbatim>\<open>open(key, O_RDONLY)\<close>: succeeds on a regular file and on a directory; fails when
  nothing exists at the path, or when the system refuses.
\<close>

definition sys_open_rdonly :: "os_env \<Rightarrow> world \<Rightarrow> string \<Rightarrow> string option \<times> world" where
  "sys_open_rdonly env w path =
     (let w' = w\<lparr>calls := calls w @ [Open_rdonly path]\<rparr>
      in if (files w path \<noteq> None \<or> is_directory env path) \<and> open_rdonly_ok env path
         then (Some path, w') else (None, w'))"

text \<open>
  \<^verbatim>\<open>write(fd, buf, n)\<close> at offset 0 of the file: the system returns \<open>write_ret env n\<close>; a
  negative return writes nothing, otherwise that many bytes (at most \<open>n\<close>) replace the
  start of the file.
\<close>

definition sys_write :: "os_env \<Rightarrow> world \<Rightarrow> string \<Rightarrow> string \<Rightarrow> nat \<Rightarrow> int \<times> world" where
  "sys_write env w fd buf n =
     (let w' = w\<lparr>calls := calls w @ [Write_fd fd (take n buf)]\<rparr>;
          r = write_ret env n
      in if r < 0 then (r, w')
         else (let written = take (nat r) (take n buf);
                   old = (case files w fd of None \<Rightarrow> [] | Some c \<Rightarrow> c)
               in (r, w'\<lparr>files := (files w')(fd \<mapsto> written @ drop (length written) old)\<rparr>)))"

text \<open>
  \<^verbatim>\<open>read(fd, buf, n)\<close> at offset 0: on a regular file, the count and the bytes read, or
  -1 when the system refuses. A descriptor that refers to no regular file was opened on a
  directory, and reading a directory fails (\<^verbatim>\<open>EISDIR\<close>).
\<close>

definition sys_read :: "os_env \<Rightarrow> world \<Rightarrow> string \<Rightarrow> nat \<Rightarrow> int \<times> string \<times> world" where
  "sys_read env w fd n =
     (let w' = w\<lparr>calls := calls w @ [Read_fd fd]\<rparr>
      in case files w fd of
           None \<Rightarrow> (- 1, [], w')
         | Some c \<Rightarrow>
             if read_ok env
             then (let got = take n c in (int (length got), got, w'))
             else (- 1, [], w'))"

text \<open>
  \<^verbatim>\<open>remove(key)\<close>: 0 and the file is gone, or a non-zero return and nothing changes. On a
  directory the system decides (an empty directory can be removed, \<^verbatim>\<open>.\<close> cannot); no
  record file changes.
\<close>

definition sys_remove :: "os_env \<Rightarrow> world \<Rightarrow> string \<Rightarrow> int \<times> world" where
  "sys_remove env w path =
     (let w' = w\<lparr>calls := calls w @ [Remove path]\<rparr>
      in if files w path \<noteq> None \<and> remove_ok env path
         then (0, w'\<lparr>files := (files w')(path := None)\<rparr>)
         else if is_directory env path \<and> remove_ok env path then (0, w')
         else (- 1, w'))"

subsection \<open>Command dispatch\<close>

datatype command_type_t = CMD_SET | CMD_GET | CMD_DEL | CMD_UNKNOWN

definition get_command_type :: "string \<Rightarrow> command_type_t" where
  "get_command_type command =
     (if command = ''SET'' then CMD_SET
      else if command = ''GET'' then CMD_GET
      else if command = ''DEL'' then CMD_DEL
      else CMD_UNKNOWN)"

text \<open>
  \<^verbatim>\<open>parse_message\<close> returns the bytes it writes to the client socket and the new world.
  Its arguments are C strings, so \<^verbatim>\<open>strcmp\<close> is equality and \<^verbatim>\<open>strlen\<close> is the length.
  \<^verbatim>\<open>close(fd)\<close> and \<^verbatim>\<open>perror\<close> do not touch the store or the reply and are left out.
\<close>

definition parse_message :: "os_env \<Rightarrow> world \<Rightarrow> string \<Rightarrow> string \<Rightarrow> string \<Rightarrow> string \<times> world" where
  "parse_message env w command key val =
     (case get_command_type command of
        CMD_SET \<Rightarrow>
          (case sys_open_creat env w key of
             (None, w1) \<Rightarrow> (sock_write ''ERROR\<newline>'' 6, w1)
           | (Some fd, w1) \<Rightarrow>
               (case sys_write env w1 fd val (length val) of
                  (r, w2) \<Rightarrow>
                    if r < 0 then (sock_write ''ERROR\<newline>'' 6, w2)
                    else (sock_write ''OK\<newline>'' 3, w2)))
      | CMD_GET \<Rightarrow>
          (case sys_open_rdonly env w key of
             (None, w1) \<Rightarrow> (sock_write ''NOTFOUND\<newline>'' 9, w1)
           | (Some fd, w1) \<Rightarrow>
               (case sys_read env w1 fd (MAX_VALUE_LEN - 1) of
                  (bytes_read, file_content, w2) \<Rightarrow>
                    if bytes_read < 0 then (sock_write ''ERROR\<newline>'' 6, w2)
                    else (let response =
                                snprintf BUFFER_SIZE (''OK\<newline>'' @ c_str file_content @ ''\<newline>'')
                          in (sock_write response (length response), w2))))
      | CMD_DEL \<Rightarrow>
          (case sys_remove env w key of
             (r, w1) \<Rightarrow>
               if r = 0 then (sock_write ''OK\<newline>'' 3, w1)
               else (sock_write ''OK\<newline>'' 3, w1))
      | CMD_UNKNOWN \<Rightarrow> (sock_write ''ERROR\<newline>'' 6, w))"

subsection \<open>One connection\<close>

text \<open>
  What the peer has made available when the server reads: a transport error, or bytes
  (none when the peer has closed). \<^verbatim>\<open>read(client_socket, buffer, n)\<close> returns the count
  and fills the buffer with at most \<open>n\<close> of them.
\<close>

datatype incoming = Recv_error | Recv string

definition sock_read :: "incoming \<Rightarrow> nat \<Rightarrow> int \<times> string" where
  "sock_read inc n =
     (case inc of
        Recv_error \<Rightarrow> (- 1, [])
      | Recv bs \<Rightarrow> (int (length (take n bs)), take n bs))"

text \<open>
  \<^verbatim>\<open>handle_client\<close> either ends the process (\<^verbatim>\<open>exit\<close>) or closes the connection having
  written a reply. The buffer is zero-initialised and one byte longer than the read, so
  what \<^verbatim>\<open>sscanf\<close> sees is the bytes read up to their first NUL. The diagnostic
  \<^verbatim>\<open>printf\<close> and \<^verbatim>\<open>perror\<close> are left out.
\<close>

datatype outcome = Exit int | Closed string world

definition handle_client :: "os_env \<Rightarrow> world \<Rightarrow> incoming \<Rightarrow> outcome" where
  "handle_client env w inc =
     (case sock_read inc (BUFFER_SIZE - 1) of
        (bytes_received, bytes) \<Rightarrow>
          if bytes_received \<le> 0 then Exit EXIT_FAILURE
          else
            (let buffer = c_str bytes
             in case sscanf buffer of
                  (parsed_args, command, key, val) \<Rightarrow>
                    if parsed_args \<ge> 2
                    then (case parse_message env w command key (if parsed_args = 3 then val else [])
                          of (reply, w') \<Rightarrow> Closed reply w')
                    else Closed (sock_write ''ERROR: Incorrect number of arguments\<newline>'' 36) w))"

subsection \<open>The accept loop\<close>

text \<open>
  \<^verbatim>\<open>main\<close> after a successful \<^verbatim>\<open>set_tcp_server_socket\<close>: connections are served one at
  a time, a failed \<^verbatim>\<open>accept\<close> is skipped. The loop itself never ends; it is run here over
  the finite list of results of \<^verbatim>\<open>accept\<close> so far. The result is the replies written, in
  order, the store, and the exit status if the process has ended (\<open>None\<close>: it is still
  waiting in \<^verbatim>\<open>accept\<close>). The answers of the system, \<open>os_env\<close>, are held fixed over the
  connections.
\<close>

datatype accepted = Accept_error | Accepted incoming

fun main_loop :: "os_env \<Rightarrow> world \<Rightarrow> accepted list \<Rightarrow> string list \<times> world \<times> int option" where
  "main_loop env w [] = ([], w, None)"
| "main_loop env w (Accept_error # cs) = main_loop env w cs"
| "main_loop env w (Accepted inc # cs) =
     (case handle_client env w inc of
        Exit status \<Rightarrow> ([], w, Some status)
      | Closed reply w' \<Rightarrow>
          (case main_loop env w' cs of (replies, w'', st) \<Rightarrow> (reply # replies, w'', st)))"

subsection \<open>Vocabulary of the properties\<close>

text \<open>A token of the request: a non-empty run of bytes without white space.\<close>

definition token :: "string \<Rightarrow> bool" where
  "token t \<longleftrightarrow> t \<noteq> [] \<and> (\<forall>c\<in>set t. \<not> isspace c)"

text \<open>A key that a request can carry unchanged: a token of at most 255 bytes without NUL.\<close>

definition valid_key :: "string \<Rightarrow> bool" where
  "valid_key K \<longleftrightarrow> token K \<and> length K \<le> 255 \<and> NUL \<notin> set K"

text \<open>
  A value that a request can carry unchanged: at most 767 bytes, no newline, no NUL, and
  not beginning with white space.
\<close>

definition valid_value :: "string \<Rightarrow> bool" where
  "valid_value V \<longleftrightarrow>
     length V \<le> 767 \<and> LF \<notin> set V \<and> NUL \<notin> set V \<and> (V = [] \<or> \<not> isspace (hd V))"

text \<open>A request line ends where the bytes end, or with one newline.\<close>

definition line_end :: "string \<Rightarrow> bool" where
  "line_end e \<longleftrightarrow> e = [] \<or> e = [LF]"

text \<open>The system lets a SET of \<open>V\<close> at \<open>K\<close> through: the file opens and every byte is written.\<close>

definition set_succeeds :: "os_env \<Rightarrow> string \<Rightarrow> string \<Rightarrow> bool" where
  "set_succeeds env K V \<longleftrightarrow> open_creat_ok env K \<and> write_ret env (length V) = int (length V)"

text \<open>The system lets a GET at \<open>K\<close> through: an existing file opens and is read.\<close>

definition get_succeeds :: "os_env \<Rightarrow> string \<Rightarrow> bool" where
  "get_succeeds env K \<longleftrightarrow> open_rdonly_ok env K \<and> read_ok env"

text \<open>
  A system where every call on a regular file succeeds and no path is a directory; the
  same system where \<^verbatim>\<open>.\<close>, the working directory itself, is a directory that cannot be
  written or removed; and the empty working directory.
\<close>

definition all_ok :: os_env where
  "all_ok = \<lparr>open_creat_ok = (\<lambda>_. True), open_rdonly_ok = (\<lambda>_. True),
             write_ret = int, read_ok = True, remove_ok = (\<lambda>_. True),
             is_directory = (\<lambda>_. False)\<rparr>"

definition with_cwd :: os_env where
  "with_cwd = \<lparr>open_creat_ok = (\<lambda>p. p \<noteq> ''.''), open_rdonly_ok = (\<lambda>_. True),
               write_ret = int, read_ok = True, remove_ok = (\<lambda>p. p \<noteq> ''.''),
               is_directory = (\<lambda>p. p = ''.'')\<rparr>"

definition empty_dir :: world where
  "empty_dir = \<lparr>files = Map.empty, calls = []\<rparr>"

section \<open>Lemmas about the scanner\<close>

lemma takeWhile_take_commute: "takeWhile P (take n xs) = take n (takeWhile P xs)"
proof (induction xs arbitrary: n)
  case Nil
  then show ?case by simp
next
  case (Cons x xs)
  then show ?case by (cases n) simp_all
qed

lemma skip_ws_ws_run: "\<forall>c\<in>set sp. isspace c \<Longrightarrow> skip_ws (sp @ s) = skip_ws s"
  by (simp add: skip_ws_def)

lemma skip_ws_token: "token t \<Longrightarrow> skip_ws (t @ s) = t @ s"
  by (cases t) (simp_all add: skip_ws_def token_def)

lemma skip_ws_id: "s = [] \<or> \<not> isspace (hd s) \<Longrightarrow> skip_ws s = s"
  by (cases s) (simp_all add: skip_ws_def)

lemma skip_ws_head: "skip_ws s = [] \<or> \<not> isspace (hd (skip_ws s))"
  unfolding skip_ws_def by (metis hd_dropWhile)

lemma stop_at_ws:
  assumes "after = [] \<or> isspace (hd after)"
  shows "takeWhile (\<lambda>c. \<not> isspace c) (take n after) = []"
proof (cases after)
  case Nil
  then show ?thesis by simp
next
  case (Cons a as)
  with assms have "isspace a" by simp
  with Cons show ?thesis by (cases n) simp_all
qed

lemma scan_s_token:
  assumes t: "token t" and len: "length t \<le> w"
    and after: "after = [] \<or> isspace (hd after)"
  shows "scan_s w (t @ after) = Some (t, after)"
proof -
  have s: "skip_ws (t @ after) = t @ after"
    using t by (rule skip_ws_token)
  have all: "\<And>c. c \<in> set t \<Longrightarrow> \<not> isspace c"
    using t by (simp add: token_def)
  have "takeWhile (\<lambda>c. \<not> isspace c) (take w (t @ after))
        = takeWhile (\<lambda>c. \<not> isspace c) (t @ take (w - length t) after)"
    using len by simp
  also have "\<dots> = t @ takeWhile (\<lambda>c. \<not> isspace c) (take (w - length t) after)"
    using all by simp
  also have "\<dots> = t"
    using stop_at_ws [OF after] by simp
  finally have item: "takeWhile (\<lambda>c. \<not> isspace c) (take w (t @ after)) = t" .
  have "t \<noteq> []" using t by (simp add: token_def)
  then show ?thesis
    by (simp add: scan_s_def s item del: take_append)
qed

lemma scan_s_general:
  assumes "0 < w"
  shows "scan_s w b =
     (if skip_ws b = [] then None
      else Some (take w (takeWhile (\<lambda>c. \<not> isspace c) (skip_ws b)),
                 drop (min w (length (takeWhile (\<lambda>c. \<not> isspace c) (skip_ws b)))) (skip_ws b)))"
proof (cases "skip_ws b")
  case Nil
  then show ?thesis by (simp add: scan_s_def)
next
  case (Cons a as)
  have "\<not> isspace a"
    using skip_ws_head [of b] Cons by simp
  then have ne: "take w (takeWhile (\<lambda>c. \<not> isspace c) (a # as)) \<noteq> []"
    using assms by (cases w) simp_all
  show ?thesis
    using ne by (simp add: scan_s_def Cons takeWhile_take_commute min.commute)
qed

lemma scan_not_nl_value:
  assumes "v \<noteq> []" and "LF \<notin> set v" and "length v \<le> w"
    and "e = [] \<or> hd e = LF"
  shows "scan_not_nl w (v @ e) = Some (v, e)"
proof -
  have stop: "takeWhile (\<lambda>c. c \<noteq> LF) (take (w - length v) e) = []"
    using assms(4) by (cases e; cases "w - length v") auto
  have all: "\<And>c. c \<in> set v \<Longrightarrow> c \<noteq> LF"
    using assms(2) by auto
  have "takeWhile (\<lambda>c. c \<noteq> LF) (take w (v @ e)) = v @ takeWhile (\<lambda>c. c \<noteq> LF) (take (w - length v) e)"
    using assms(3) all by simp
  then have "takeWhile (\<lambda>c. c \<noteq> LF) (take w (v @ e)) = v"
    using stop by simp
  then show ?thesis
    using assms(1) by (simp add: scan_not_nl_def del: take_append)
qed

lemma scan_not_nl_general:
  "scan_not_nl w s =
     (if take w (takeWhile (\<lambda>c. c \<noteq> LF) s) = [] then None
      else Some (take w (takeWhile (\<lambda>c. c \<noteq> LF) s),
                 drop (length (take w (takeWhile (\<lambda>c. c \<noteq> LF) s))) s))"
  by (simp add: scan_not_nl_def takeWhile_take_commute)

text \<open>A command token and a key token, separated by white space, then anything that begins with white space or is empty.\<close>

lemma sscanf_two_tokens:
  assumes c: "token cmd" "length cmd \<le> 15"
    and k: "token K" "length K \<le> 255"
    and sp: "sp \<noteq> []" "\<forall>c\<in>set sp. isspace c"
    and after: "after = [] \<or> isspace (hd after)"
  shows "sscanf (cmd @ sp @ K @ after) =
     (case scan_not_nl 767 (skip_ws after) of
        None \<Rightarrow> (2, cmd, K, [])
      | Some (v, r) \<Rightarrow> (3, cmd, K, v))"
proof -
  have "sp @ K @ after = [] \<or> isspace (hd (sp @ K @ after))"
    using sp by (cases sp) simp_all
  then have 1: "scan_s 15 (cmd @ sp @ K @ after) = Some (cmd, sp @ K @ after)"
    using c by (intro scan_s_token)
  have 2: "skip_ws (sp @ K @ after) = K @ after"
    using sp(2) k(1) by (simp add: skip_ws_ws_run skip_ws_token)
  have 3: "scan_s 255 (K @ after) = Some (K, after)"
    using k after by (intro scan_s_token)
  show ?thesis
    by (simp add: sscanf_def 1 2 3 skip_ws_token [OF k(1)])
qed

lemma takeWhile_nonws_split:
  "\<exists>rest. s = takeWhile (\<lambda>c. \<not> isspace c) s @ rest \<and> (rest = [] \<or> isspace (hd rest))"
proof -
  have "dropWhile (\<lambda>c. \<not> isspace c) s = [] \<or> isspace (hd (dropWhile (\<lambda>c. \<not> isspace c) s))"
    using hd_dropWhile [of "\<lambda>c. \<not> isspace c" s] by auto
  moreover have "s = takeWhile (\<lambda>c. \<not> isspace c) s @ dropWhile (\<lambda>c. \<not> isspace c) s"
    by simp
  ultimately show ?thesis by blast
qed

lemma takeWhile_token_prefix:
  assumes "\<forall>c\<in>set t. \<not> isspace c" and "rest = [] \<or> isspace (hd rest)"
  shows "takeWhile (\<lambda>c. \<not> isspace c) (t @ rest) = t"
  using assms by (cases rest) (auto simp: takeWhile_append2)

lemma sscanf_long_first_token:
  fixes b :: string
  defines "tok \<equiv> takeWhile (\<lambda>c. \<not> isspace c) (skip_ws b)"
  assumes long: "15 < length tok"
  shows "sscanf b =
     (case scan_not_nl 767 (skip_ws (drop (min 270 (length tok)) (skip_ws b))) of
        None \<Rightarrow> (2, take 15 tok, take 255 (drop 15 tok), [])
      | Some (v, r) \<Rightarrow> (3, take 15 tok, take 255 (drop 15 tok), v))"
proof -
  obtain rest where s: "skip_ws b = tok @ rest" and rest: "rest = [] \<or> isspace (hd rest)"
    using takeWhile_nonws_split [of "skip_ws b"] unfolding tok_def by blast
  have nonws: "\<forall>c\<in>set tok. \<not> isspace c"
    unfolding tok_def by (auto dest: set_takeWhileD)
  have ne: "skip_ws b \<noteq> []"
    using long s by auto
  have "scan_s 15 b = Some (take 15 tok, drop (min 15 (length tok)) (skip_ws b))"
    using ne by (simp add: scan_s_general tok_def)
  then have 1: "scan_s 15 b = Some (take 15 tok, drop 15 tok @ rest)"
    unfolding s using long by simp
  have t2: "token (drop 15 tok)"
    using long nonws by (auto simp: token_def dest: in_set_dropD)
  have 2: "skip_ws (drop 15 tok @ rest) = drop 15 tok @ rest"
    using t2 by (rule skip_ws_token)
  have tw: "takeWhile (\<lambda>c. \<not> isspace c) (drop 15 tok @ rest) = drop 15 tok"
    using t2 rest by (intro takeWhile_token_prefix) (simp add: token_def)
  have ne2: "drop 15 tok @ rest \<noteq> []"
    using long by simp
  have 3: "scan_s 255 (drop 15 tok @ rest) =
      Some (take 255 (drop 15 tok), drop (min 255 (length tok - 15)) (drop 15 tok @ rest))"
    using ne2 by (simp add: scan_s_general 2 tw)
  have 4: "drop (min 255 (length tok - 15)) (drop 15 tok @ rest) = drop (min 270 (length tok)) (skip_ws b)"
    using long by (simp add: s min_def)
  show ?thesis
    by (simp only: sscanf_def 1 2 3 4 option.case prod.case)
qed

section \<open>Lemmas about the handler\<close>

lemma sscanf_value_general:
  assumes k: "token K" "length K \<le> 255" and c: "token cmd" "length cmd \<le> 15"
    and sp1: "sp1 \<noteq> []" "\<forall>c\<in>set sp1. isspace c"
    and sp: "sp \<noteq> []" "\<forall>c\<in>set sp. isspace c"
  shows "sscanf (cmd @ sp1 @ K @ sp @ rest) =
     (let v = take 767 (takeWhile (\<lambda>c. c \<noteq> LF) (skip_ws rest))
      in (if v = [] then 2 else 3, cmd, K, v))"
proof -
  have after: "sp @ rest = [] \<or> isspace (hd (sp @ rest))"
    using sp by (cases sp) simp_all
  have skip: "skip_ws (sp @ rest) = skip_ws rest"
    using sp(2) by (rule skip_ws_ws_run)
  show ?thesis
    using sscanf_two_tokens [OF c k sp1 after]
    by (simp add: skip scan_not_nl_general Let_def)
qed

lemma token_SET: "token ''SET''"
  by (simp add: token_def isspace_def)

lemma token_GET: "token ''GET''"
  by (simp add: token_def isspace_def)

lemma token_DEL: "token ''DEL''"
  by (simp add: token_def isspace_def)

lemma malformed_reply:
  "sock_write ''ERROR: Incorrect number of arguments\<newline>'' 36 = ''ERROR: Incorrect number of arguments''"
  by (simp add: sock_write_def)

lemma handle_client_buffer:
  assumes "bs \<noteq> []"
  shows "handle_client env w (Recv bs) =
     (case sscanf (c_str (take 1023 bs)) of
        (parsed_args, command, key, val) \<Rightarrow>
          if parsed_args \<ge> 2
          then (case parse_message env w command key (if parsed_args = 3 then val else [])
                of (reply, w') \<Rightarrow> Closed reply w')
          else Closed ''ERROR: Incorrect number of arguments'' w)"
proof -
  have rd: "sock_read (Recv bs) (BUFFER_SIZE - 1) = (int (length (take 1023 bs)), take 1023 bs)"
    by (simp add: sock_read_def BUFFER_SIZE_def)
  have pos: "\<not> int (length (take 1023 bs)) \<le> 0"
    using assms by (cases bs) simp_all
  show ?thesis
    unfolding handle_client_def rd prod.case Let_def malformed_reply
    using pos by (simp only: if_False)
qed

lemma c_str_id: "NUL \<notin> set bs \<Longrightarrow> c_str bs = bs"
  by (auto simp: c_str_def)

lemma parse_message_SET:
  assumes "set_succeeds env K V"
  shows "parse_message env w ''SET'' K V =
     (''OK\<newline>'', w\<lparr>files := (files w)(K \<mapsto> V), calls := calls w @ [Open_creat K, Write_fd K V]\<rparr>)"
  using assms
  by (simp add: parse_message_def get_command_type_def sys_open_creat_def sys_write_def
      set_succeeds_def sock_write_def Let_def)

lemma parse_message_GET:
  assumes "get_succeeds env K" and "files w K = Some V"
  shows "parse_message env w ''GET'' K v =
     (''OK\<newline>'' @ c_str (take 767 V) @ ''\<newline>'', w\<lparr>calls := calls w @ [Open_rdonly K, Read_fd K]\<rparr>)"
proof -
  have "length (c_str (take 767 V)) \<le> 767"
    unfolding c_str_def by (rule order_trans [OF length_takeWhile_le]) simp
  then show ?thesis
    using assms
    by (simp add: parse_message_def get_command_type_def sys_open_rdonly_def sys_read_def
        get_succeeds_def sock_write_def snprintf_def BUFFER_SIZE_def MAX_VALUE_LEN_def Let_def)
qed

lemma sscanf_SET_line:
  assumes "valid_key K" and "valid_value V" and "line_end e"
  shows "sscanf (''SET '' @ K @ '' '' @ V @ e) = (if V = [] then 2 else 3, ''SET'', K, V)"
proof -
  have k: "token K" "length K \<le> 255"
    using assms(1) by (simp_all add: valid_key_def)
  have e: "skip_ws e = []" "e = [] \<or> hd e = LF"
    using assms(3) by (auto simp: line_end_def skip_ws_def isspace_def)
  have gen: "sscanf (''SET'' @ '' '' @ K @ '' '' @ (V @ e)) =
      (let v = take 767 (takeWhile (\<lambda>c. c \<noteq> LF) (skip_ws (V @ e)))
       in (if v = [] then 2 else 3, ''SET'', K, v))"
    by (rule sscanf_value_general [OF k token_SET]) (simp_all add: isspace_def)
  have v: "take 767 (takeWhile (\<lambda>c. c \<noteq> LF) (skip_ws (V @ e))) = V"
  proof (cases "V = []")
    case True
    then show ?thesis using e(1) by simp
  next
    case False
    then have "\<not> isspace (hd V)" and len: "length V \<le> 767" and nl: "\<And>c. c \<in> set V \<Longrightarrow> c \<noteq> LF"
      using assms(2) by (auto simp: valid_value_def)
    then have "skip_ws (V @ e) = V @ e"
      using False by (intro skip_ws_id) simp
    moreover have "takeWhile (\<lambda>c. c \<noteq> LF) (V @ e) = V"
      using nl e(2) by (cases e) auto
    ultimately show ?thesis using len by simp
  qed
  show ?thesis using gen by (simp add: v)
qed

lemma sscanf_key_line:
  assumes "valid_key K" and "line_end e" and "token cmd" and "length cmd \<le> 15"
  shows "sscanf (cmd @ '' '' @ K @ e) = (2, cmd, K, [])"
proof -
  have k: "token K" "length K \<le> 255"
    using assms(1) by (simp_all add: valid_key_def)
  have e: "skip_ws e = []" "e = [] \<or> isspace (hd e)"
    using assms(2) by (auto simp: line_end_def skip_ws_def isspace_def)
  have "sscanf (cmd @ '' '' @ K @ e) =
     (case scan_not_nl 767 (skip_ws e) of None \<Rightarrow> (2, cmd, K, []) | Some (v, r) \<Rightarrow> (3, cmd, K, v))"
    by (rule sscanf_two_tokens [OF assms(3,4) k _ _ e(2)]) (simp_all add: isspace_def)
  then show ?thesis
    by (simp add: e(1) scan_not_nl_def)
qed

lemma valid_key_no_NUL: "valid_key K \<Longrightarrow> NUL \<notin> set K"
  by (simp add: valid_key_def)

lemma line_end_no_NUL: "line_end e \<Longrightarrow> NUL \<notin> set e"
  by (auto simp: line_end_def)

lemma line_end_length: "line_end e \<Longrightarrow> length e \<le> 1"
  by (auto simp: line_end_def)

lemma buffer_of_line:
  assumes "NUL \<notin> set l" and "length l \<le> 1023"
  shows "c_str (take 1023 l) = l"
  using assms by (simp add: c_str_id)

lemma handle_SET:
  assumes K: "valid_key K" and V: "valid_value V" and e: "line_end e"
    and len: "length (''SET '' @ K @ '' '' @ V @ e) \<le> 1023"
    and ok: "set_succeeds env K V"
  shows "handle_client env w (Recv (''SET '' @ K @ '' '' @ V @ e)) =
     Closed ''OK\<newline>''
       (w\<lparr>files := (files w)(K \<mapsto> V), calls := calls w @ [Open_creat K, Write_fd K V]\<rparr>)"
proof -
  have "NUL \<notin> set (''SET '' @ K @ '' '' @ V @ e)"
    using valid_key_no_NUL [OF K] line_end_no_NUL [OF e] V by (simp add: valid_value_def)
  then have buf: "c_str (take 1023 (''SET '' @ K @ '' '' @ V @ e)) = ''SET '' @ K @ '' '' @ V @ e"
    using len by (rule buffer_of_line)
  have ne: "''SET '' @ K @ '' '' @ V @ e \<noteq> []" by simp
  have "handle_client env w (Recv (''SET '' @ K @ '' '' @ V @ e)) =
      (case parse_message env w ''SET'' K V of (reply, w') \<Rightarrow> Closed reply w')"
    unfolding handle_client_buffer [OF ne] buf sscanf_SET_line [OF K V e]
    by simp
  then show ?thesis
    by (simp add: parse_message_SET [OF ok])
qed

lemma handle_key_line:
  assumes K: "valid_key K" and e: "line_end e" and c: "token cmd" "length cmd \<le> 15" "NUL \<notin> set cmd"
  shows "handle_client env w (Recv (cmd @ '' '' @ K @ e)) =
      (case parse_message env w cmd K [] of (reply, w') \<Rightarrow> Closed reply w')"
proof -
  have nul: "NUL \<notin> set (cmd @ '' '' @ K @ e)"
    using valid_key_no_NUL [OF K] line_end_no_NUL [OF e] c(3) by simp
  have "length (cmd @ '' '' @ K @ e) \<le> 1023"
    using K line_end_length [OF e] c(2) by (simp add: valid_key_def)
  with nul have buf: "c_str (take 1023 (cmd @ '' '' @ K @ e)) = cmd @ '' '' @ K @ e"
    by (rule buffer_of_line)
  have ne: "cmd @ '' '' @ K @ e \<noteq> []" by simp
  show ?thesis
    unfolding handle_client_buffer [OF ne] buf sscanf_key_line [OF K e c(1,2)]
    by simp
qed

lemma handle_GET:
  assumes K: "valid_key K" and e: "line_end e"
    and ok: "get_succeeds env K" and f: "files w K = Some V"
  shows "handle_client env w (Recv (''GET '' @ K @ e)) =
     Closed (''OK\<newline>'' @ c_str (take 767 V) @ ''\<newline>'')
       (w\<lparr>calls := calls w @ [Open_rdonly K, Read_fd K]\<rparr>)"
  using handle_key_line [OF K e token_GET, of env w]
  by (simp add: parse_message_GET [OF ok f])

lemma stored_value_read_back:
  assumes "valid_value V"
  shows "c_str (take 767 V) = V"
  using assms by (simp add: valid_value_def c_str_id)

lemma parse_message_DEL_reply: "fst (parse_message env w ''DEL'' K v) = ''OK\<newline>''"
  by (simp add: parse_message_def get_command_type_def sock_write_def split: prod.splits)

lemma command_15_unknown:
  assumes "length c = 15"
  shows "get_command_type c = CMD_UNKNOWN"
proof -
  have "c \<noteq> ''SET''" "c \<noteq> ''GET''" "c \<noteq> ''DEL''"
    using assms by auto
  then show ?thesis
    by (simp add: get_command_type_def)
qed

lemma captured_value_head:
  "take 767 (takeWhile (\<lambda>c. c \<noteq> LF) (skip_ws rest)) = []
   \<or> \<not> isspace (hd (take 767 (takeWhile (\<lambda>c. c \<noteq> LF) (skip_ws rest))))"
proof (cases "skip_ws rest")
  case Nil
  then show ?thesis by simp
next
  case (Cons a as)
  then have "\<not> isspace a"
    using skip_ws_head [of rest] by simp
  then have "a \<noteq> LF"
    by (auto simp: isspace_def)
  then show ?thesis
    using Cons \<open>\<not> isspace a\<close> by simp
qed

lemma sscanf_value_no_leading_ws:
  assumes "sscanf b = (n, c, k, v)"
  shows "v = [] \<or> \<not> isspace (hd v)"
proof -
  have "v = [] \<or> (\<exists>r2 r3. scan_not_nl 767 (skip_ws r2) = Some (v, r3))"
    using assms by (auto simp: sscanf_def split: option.splits prod.splits)
  then show ?thesis
  proof
    assume "v = []"
    then show ?thesis by simp
  next
    assume "\<exists>r2 r3. scan_not_nl 767 (skip_ws r2) = Some (v, r3)"
    then obtain r2 r3 where "scan_not_nl 767 (skip_ws r2) = Some (v, r3)"
      by blast
    then have "v = take 767 (takeWhile (\<lambda>c. c \<noteq> LF) (skip_ws r2))"
      by (simp add: scan_not_nl_general split: if_splits)
    then show ?thesis
      using captured_value_head [of r2] by simp
  qed
qed

section \<open>The properties\<close>

subsection \<open>C1: a stored value is read back\<close>

text \<open>
  Claim C1, as amended. Let \<open>K\<close> be a non-empty key of at most 255 bytes without white
  space or NUL, and \<open>V\<close> a value of at most 767 bytes without newline or NUL that does not
  begin with white space. If the request \<^verbatim>\<open>SET K V\<close> (with or without a final newline) fits
  the 1023 bytes the server reads and the file operations succeed, then the request is
  answered \<^verbatim>\<open>OK\n\<close>, and \<^verbatim>\<open>GET K\<close> on the next connection is answered \<^verbatim>\<open>OK\n\<close>, \<open>V\<close>,
  \<^verbatim>\<open>\n\<close>; the file \<open>K\<close> holds exactly \<open>V\<close>.
\<close>

theorem set_get_round_trip:
  assumes "valid_key K" and "valid_value V" and "line_end e1" and "line_end e2"
    and "length (''SET '' @ K @ '' '' @ V @ e1) \<le> 1023"
    and "set_succeeds env K V" and "get_succeeds env K"
  shows "main_loop env w
           [Accepted (Recv (''SET '' @ K @ '' '' @ V @ e1)), Accepted (Recv (''GET '' @ K @ e2))] =
         ([''OK\<newline>'', ''OK\<newline>'' @ V @ ''\<newline>''],
          w\<lparr>files := (files w)(K \<mapsto> V),
            calls := calls w @ [Open_creat K, Write_fd K V, Open_rdonly K, Read_fd K]\<rparr>,
          None)"
proof -
  let ?w1 = "w\<lparr>files := (files w)(K \<mapsto> V), calls := calls w @ [Open_creat K, Write_fd K V]\<rparr>"
  have s: "handle_client env w (Recv (''SET '' @ K @ '' '' @ V @ e1)) = Closed ''OK\<newline>'' ?w1"
    using assms(1,2,3,5,6) by (rule handle_SET)
  have "files ?w1 K = Some V" by simp
  then have g: "handle_client env ?w1 (Recv (''GET '' @ K @ e2)) =
      Closed (''OK\<newline>'' @ c_str (take 767 V) @ ''\<newline>'')
        (?w1\<lparr>calls := calls ?w1 @ [Open_rdonly K, Read_fd K]\<rparr>)"
    using assms(1,4,7) by (intro handle_GET)
  show ?thesis
    unfolding main_loop.simps s g outcome.case prod.case stored_value_read_back [OF assms(2)]
    by simp
qed

text \<open>The scenario of the specification: \<^verbatim>\<open>SET foo hello world\<close>, then \<^verbatim>\<open>GET foo\<close>.\<close>

theorem set_get_round_trip_witness:
  "main_loop all_ok empty_dir
     [Accepted (Recv ''SET foo hello world''), Accepted (Recv ''GET foo\<newline>'')] =
   ([''OK\<newline>'', ''OK\<newline>hello world\<newline>''],
    \<lparr>files = [''foo'' \<mapsto> ''hello world''],
     calls = [Open_creat ''foo'', Write_fd ''foo'' ''hello world'', Open_rdonly ''foo'', Read_fd ''foo'']\<rparr>,
    None)"
  using set_get_round_trip [of "''foo''" "''hello world''" "[]" "[LF]" all_ok empty_dir]
  by (simp add: valid_key_def valid_value_def token_def isspace_def line_end_def
      set_succeeds_def get_succeeds_def all_ok_def empty_dir_def)

text \<open>
  As stated, for every value without newline, C1 fails: the value \<^verbatim>\<open>" a"\<close> begins with a
  space, the white-space directive before \<^verbatim>\<open>%767[^\n]\<close> skips it, and \<^verbatim>\<open>a\<close> is stored and
  read back.
\<close>

theorem round_trip_leading_space_counterexample:
  "fst (main_loop all_ok empty_dir
          [Accepted (Recv (''SET '' @ ''k'' @ '' '' @ '' a'')), Accepted (Recv (''GET '' @ ''k''))])
     = [''OK\<newline>'', ''OK\<newline>a\<newline>'']
   \<and> ''OK\<newline>a\<newline>'' \<noteq> ''OK\<newline>'' @ '' a'' @ ''\<newline>''"
  by (simp add: handle_client_def sock_read_def BUFFER_SIZE_def c_str_def sscanf_def scan_s_def
      scan_not_nl_def skip_ws_def isspace_def sock_write_def snprintf_def MAX_VALUE_LEN_def
      parse_message_def get_command_type_def sys_open_creat_def sys_write_def sys_open_rdonly_def
      sys_read_def all_ok_def empty_dir_def Let_def)

subsection \<open>C2: the reply to a malformed request\<close>

text \<open>
  Claim C2 says that every reply ends with one newline, the reply to a malformed request
  included. The source passes the 37 bytes \<^verbatim>\<open>"ERROR: Incorrect number of arguments\n"\<close> to
  \<^verbatim>\<open>write\<close> with the count 36: on the request \<^verbatim>\<open>SET\n\<close> the reply written is
  \<^verbatim>\<open>ERROR: Incorrect number of arguments\<close>, and its last byte is not a newline.
\<close>

theorem malformed_reply_without_newline:
  "handle_client env w (Recv ''SET\<newline>'') = Closed ''ERROR: Incorrect number of arguments'' w
   \<and> last ''ERROR: Incorrect number of arguments'' \<noteq> LF
   \<and> length ''ERROR: Incorrect number of arguments\<newline>'' = 37"
  by (simp add: handle_client_def sock_read_def BUFFER_SIZE_def c_str_def sscanf_def scan_s_def
      skip_ws_def isspace_def sock_write_def Let_def)

subsection \<open>C3: a failed or empty read ends the process\<close>

text \<open>
  Claim C3. If the read on an accepted connection returns zero or a negative count,
  \<^verbatim>\<open>handle_client\<close> exits with \<^verbatim>\<open>EXIT_FAILURE\<close>, which is not zero, and the accept loop
  serves no later connection. If the read returns a positive count, \<^verbatim>\<open>handle_client\<close> does
  not exit: it goes on to the parse phase, that is, its result is the result of running
  \<^verbatim>\<open>sscanf\<close> on the bytes read, as a C string, and dispatching on the number of items
  (\<^verbatim>\<open>parse_message\<close> for two or more, the malformed-request reply otherwise); the
  connection is closed with that reply and the loop goes on.
\<close>

theorem read_failure_exits:
  "(fst (sock_read inc (BUFFER_SIZE - 1)) \<le> 0 \<longrightarrow>
      handle_client env w inc = Exit EXIT_FAILURE \<and> EXIT_FAILURE \<noteq> 0
      \<and> main_loop env w (Accepted inc # cs) = ([], w, Some EXIT_FAILURE))
   \<and> (0 < fst (sock_read inc (BUFFER_SIZE - 1)) \<longrightarrow>
      handle_client env w inc =
        (case sscanf (c_str (snd (sock_read inc (BUFFER_SIZE - 1)))) of
           (parsed_args, command, key, val) \<Rightarrow>
             if 2 \<le> parsed_args
             then (case parse_message env w command key (if parsed_args = 3 then val else [])
                   of (reply, w') \<Rightarrow> Closed reply w')
             else Closed ''ERROR: Incorrect number of arguments'' w)
      \<and> (\<forall>status. handle_client env w inc \<noteq> Exit status)
      \<and> (\<exists>reply w'. handle_client env w inc = Closed reply w'
             \<and> main_loop env w [Accepted inc] = ([reply], w', None)))"
proof -
  obtain n bytes where rd: "sock_read inc (BUFFER_SIZE - 1) = (n, bytes)"
    by (cases "sock_read inc (BUFFER_SIZE - 1)")
  then have f: "fst (sock_read inc (BUFFER_SIZE - 1)) = n"
    and b: "snd (sock_read inc (BUFFER_SIZE - 1)) = bytes"
    by simp_all
  show ?thesis
  proof (cases "n \<le> 0")
    case True
    then have h: "handle_client env w inc = Exit EXIT_FAILURE"
      unfolding handle_client_def rd by simp
    then show ?thesis
      using True f by (simp add: EXIT_FAILURE_def)
  next
    case False
    obtain a c k v where sc: "sscanf (c_str bytes) = (a, c, k, v)"
      by (cases "sscanf (c_str bytes)")
    obtain reply w' where pm: "parse_message env w c k (if a = 3 then v else []) = (reply, w')"
      by (cases "parse_message env w c k (if a = 3 then v else [])")
    have parse: "handle_client env w inc =
        (case sscanf (c_str bytes) of
           (parsed_args, command, key, val) \<Rightarrow>
             if 2 \<le> parsed_args
             then (case parse_message env w command key (if parsed_args = 3 then val else [])
                   of (reply, w') \<Rightarrow> Closed reply w')
             else Closed ''ERROR: Incorrect number of arguments'' w)"
      unfolding handle_client_def rd prod.case Let_def malformed_reply
      using False by (simp only: if_False)
    have closed: "\<exists>reply w'. handle_client env w inc = Closed reply w'"
      unfolding parse sc using pm by (cases "2 \<le> a") simp_all
    then have "\<forall>status. handle_client env w inc \<noteq> Exit status"
      by auto
    moreover have "\<exists>reply w'. handle_client env w inc = Closed reply w'
             \<and> main_loop env w [Accepted inc] = ([reply], w', None)"
      using closed by auto
    ultimately show ?thesis
      unfolding f b using False parse by blast
  qed
qed

text \<open>
  A peer that closes at once, a transport error before a second connection, and the
  request \<^verbatim>\<open>GET k\<close>, which is parsed and answered.
\<close>

theorem read_failure_exits_witness:
  "handle_client all_ok empty_dir (Recv []) = Exit EXIT_FAILURE
   \<and> main_loop all_ok empty_dir [Accepted Recv_error, Accepted (Recv ''GET k'')] = ([], empty_dir, Some EXIT_FAILURE)
   \<and> handle_client all_ok empty_dir (Recv ''GET k'') =
         Closed ''NOTFOUND\<newline>'' (empty_dir\<lparr>calls := [Open_rdonly ''k'']\<rparr>)"
  using read_failure_exits [of "Recv []" all_ok empty_dir "[]"]
    read_failure_exits [of Recv_error all_ok empty_dir "[Accepted (Recv ''GET k'')]"]
    read_failure_exits [of "Recv ''GET k''" all_ok empty_dir "[]"]
  by (simp add: sock_read_def BUFFER_SIZE_def c_str_def sscanf_def scan_s_def scan_not_nl_def
      skip_ws_def isspace_def parse_message_def get_command_type_def sys_open_rdonly_def
      sock_write_def all_ok_def empty_dir_def)

subsection \<open>C4: DEL always answers OK\<close>

text \<open>
  Claim C4. For every key \<open>K\<close>, \<^verbatim>\<open>DEL K\<close> is answered exactly \<^verbatim>\<open>OK\n\<close>, whatever the store
  holds and whatever \<^verbatim>\<open>remove\<close> returns: in \<^verbatim>\<open>parse_message\<close> for every key, and through
  \<^verbatim>\<open>handle_client\<close> for every key that a request line can carry.
\<close>

theorem del_always_ok:
  "fst (parse_message env w ''DEL'' K v) = ''OK\<newline>''
   \<and> (valid_key K \<and> line_end e \<longrightarrow>
        (\<exists>w'. handle_client env w (Recv (''DEL '' @ K @ e)) = Closed ''OK\<newline>'' w'
           \<and> files w' = (if files w K \<noteq> None \<and> remove_ok env K then (files w)(K := None) else files w)))"
proof (intro conjI impI)
  show "fst (parse_message env w ''DEL'' K v) = ''OK\<newline>''"
    by (rule parse_message_DEL_reply)
next
  assume a: "valid_key K \<and> line_end e"
  have pm: "parse_message env w ''DEL'' K [] =
      (''OK\<newline>'', snd (sys_remove env w K))"
    by (simp add: parse_message_def get_command_type_def sock_write_def split: prod.splits)
  have h: "handle_client env w (Recv (''DEL '' @ K @ e)) = Closed ''OK\<newline>'' (snd (sys_remove env w K))"
    using handle_key_line [of K e "''DEL''" env w] a token_DEL by (simp add: pm)
  have "files (snd (sys_remove env w K)) =
      (if files w K \<noteq> None \<and> remove_ok env K then (files w)(K := None) else files w)"
    by (simp add: sys_remove_def Let_def)
  with h show "\<exists>w'. handle_client env w (Recv (''DEL '' @ K @ e)) = Closed ''OK\<newline>'' w'
           \<and> files w' = (if files w K \<noteq> None \<and> remove_ok env K then (files w)(K := None) else files w)"
    by blast
qed

text \<open>
  \<^verbatim>\<open>DEL foo\<close> where no file \<open>foo\<close> exists and the system refuses every removal.
\<close>

theorem del_always_ok_witness:
  "valid_key ''foo'' \<and> line_end [LF]
   \<and> fst (parse_message (all_ok\<lparr>remove_ok := (\<lambda>_. False)\<rparr>) empty_dir ''DEL'' ''foo'' []) = ''OK\<newline>''
   \<and> (\<exists>w'. handle_client (all_ok\<lparr>remove_ok := (\<lambda>_. False)\<rparr>) empty_dir (Recv (''DEL '' @ ''foo'' @ [LF]))
              = Closed ''OK\<newline>'' w'
           \<and> files w' = files empty_dir)"
  using del_always_ok [of "all_ok\<lparr>remove_ok := (\<lambda>_. False)\<rparr>" empty_dir "''foo''" "[]" "[LF]"]
  by (simp add: valid_key_def token_def isspace_def line_end_def all_ok_def empty_dir_def)

subsection \<open>C5: fewer than two tokens\<close>

text \<open>
  Claim C5. When \<^verbatim>\<open>sscanf\<close> assigns fewer than two items, the handler writes the
  malformed-request reply, calls nothing on the store, and leaves the store as it was.
\<close>

theorem malformed_request_rejected:
  assumes "bs \<noteq> []" and "fst (sscanf (c_str (take (BUFFER_SIZE - 1) bs))) < 2"
  shows "handle_client env w (Recv bs) = Closed ''ERROR: Incorrect number of arguments'' w"
proof -
  obtain n c k v where sc: "sscanf (c_str (take 1023 bs)) = (n, c, k, v)"
    by (cases "sscanf (c_str (take 1023 bs))")
  then have "n < 2"
    using assms(2) by (simp add: BUFFER_SIZE_def)
  then show ?thesis
    unfolding handle_client_buffer [OF assms(1)] sc by simp
qed

text \<open>
  The request \<^verbatim>\<open>SET\<close> alone.
\<close>

theorem malformed_request_rejected_witness:
  "handle_client all_ok empty_dir (Recv ''SET'') = Closed ''ERROR: Incorrect number of arguments'' empty_dir"
  using malformed_request_rejected [of "''SET''" all_ok empty_dir]
  by (simp add: BUFFER_SIZE_def c_str_def sscanf_def scan_s_def skip_ws_def isspace_def)

subsection \<open>C6: GET of a missing key\<close>

text \<open>
  Claim C6, as amended. If nothing exists at the path \<open>K\<close>, neither a record file nor a
  directory, \<^verbatim>\<open>GET K\<close> is answered exactly \<^verbatim>\<open>NOTFOUND\n\<close> and the files are unchanged; the
  only call is the failed \<^verbatim>\<open>open\<close>.
\<close>

theorem get_missing_notfound:
  assumes "files w K = None" and "\<not> is_directory env K"
  shows "parse_message env w ''GET'' K v = (''NOTFOUND\<newline>'', w\<lparr>calls := calls w @ [Open_rdonly K]\<rparr>)
     \<and> files (snd (parse_message env w ''GET'' K v)) = files w
     \<and> (valid_key K \<and> line_end e \<longrightarrow>
          handle_client env w (Recv (''GET '' @ K @ e)) =
            Closed ''NOTFOUND\<newline>'' (w\<lparr>calls := calls w @ [Open_rdonly K]\<rparr>))"
proof -
  have pm: "\<And>v. parse_message env w ''GET'' K v = (''NOTFOUND\<newline>'', w\<lparr>calls := calls w @ [Open_rdonly K]\<rparr>)"
    using assms
    by (simp add: parse_message_def get_command_type_def sys_open_rdonly_def sock_write_def)
  have "handle_client env w (Recv (''GET '' @ K @ e)) =
            Closed ''NOTFOUND\<newline>'' (w\<lparr>calls := calls w @ [Open_rdonly K]\<rparr>)"
    if "valid_key K" and "line_end e"
    using handle_key_line [OF that token_GET, of env w] by (simp add: pm)
  then show ?thesis
    by (simp add: pm)
qed

text \<open>\<^verbatim>\<open>GET foo\<close> in the empty directory.\<close>

theorem get_missing_notfound_witness:
  "files empty_dir ''foo'' = None \<and> \<not> is_directory with_cwd ''foo''
   \<and> valid_key ''foo'' \<and> line_end [LF]
   \<and> handle_client with_cwd empty_dir (Recv (''GET '' @ ''foo'' @ [LF])) =
        Closed ''NOTFOUND\<newline>'' (empty_dir\<lparr>calls := calls empty_dir @ [Open_rdonly ''foo'']\<rparr>)"
  using get_missing_notfound [of empty_dir "''foo''" with_cwd "[]" "[LF]"]
  by (simp add: valid_key_def token_def isspace_def line_end_def empty_dir_def with_cwd_def)

text \<open>
  As stated, for every key without a record file, C6 fails: no record file is named
  \<^verbatim>\<open>.\<close>, but \<^verbatim>\<open>.\<close> is a directory, so \<^verbatim>\<open>open(".", O_RDONLY)\<close> succeeds, the \<^verbatim>\<open>read\<close>
  fails, and \<^verbatim>\<open>GET .\<close> is answered \<^verbatim>\<open>ERROR\n\<close>.
\<close>

theorem get_directory_counterexample:
  "files empty_dir ''.'' = None
   \<and> handle_client with_cwd empty_dir (Recv ''GET .'') =
        Closed ''ERROR\<newline>'' (empty_dir\<lparr>calls := [Open_rdonly ''.'', Read_fd ''.'']\<rparr>)
   \<and> ''ERROR\<newline>'' \<noteq> ''NOTFOUND\<newline>''"
  by (simp add: handle_client_def sock_read_def BUFFER_SIZE_def c_str_def sscanf_def scan_s_def
      scan_not_nl_def skip_ws_def isspace_def sock_write_def MAX_VALUE_LEN_def
      parse_message_def get_command_type_def sys_open_rdonly_def sys_read_def
      with_cwd_def empty_dir_def Let_def)

subsection \<open>C7: a second SET replaces the value\<close>

text \<open>
  Claim C7, as amended. For a key \<open>K\<close> and values \<open>V1\<close>, \<open>V2\<close> that a request can carry
  unchanged (as in C1: the values do not begin with white space and the request lines fit
  the 1023 bytes read), when the file operations succeed, \<^verbatim>\<open>SET K V1\<close> and then
  \<^verbatim>\<open>SET K V2\<close> leave the file \<open>K\<close> holding exactly \<open>V2\<close>, and a following \<^verbatim>\<open>GET K\<close> is answered
  \<^verbatim>\<open>OK\n\<close>, \<open>V2\<close>, \<^verbatim>\<open>\n\<close>.
\<close>

theorem set_set_get_overwrites:
  assumes "valid_key K" and "valid_value V1" and "valid_value V2"
    and "line_end e1" and "line_end e2" and "line_end e3"
    and "length (''SET '' @ K @ '' '' @ V1 @ e1) \<le> 1023"
    and "length (''SET '' @ K @ '' '' @ V2 @ e2) \<le> 1023"
    and "set_succeeds env K V1" and "set_succeeds env K V2" and "get_succeeds env K"
  shows "main_loop env w
           [Accepted (Recv (''SET '' @ K @ '' '' @ V1 @ e1)),
            Accepted (Recv (''SET '' @ K @ '' '' @ V2 @ e2)),
            Accepted (Recv (''GET '' @ K @ e3))] =
         ([''OK\<newline>'', ''OK\<newline>'', ''OK\<newline>'' @ V2 @ ''\<newline>''],
          w\<lparr>files := (files w)(K \<mapsto> V2),
            calls := calls w @ [Open_creat K, Write_fd K V1, Open_creat K, Write_fd K V2,
                                Open_rdonly K, Read_fd K]\<rparr>,
          None)"
proof -
  let ?w1 = "w\<lparr>files := (files w)(K \<mapsto> V1), calls := calls w @ [Open_creat K, Write_fd K V1]\<rparr>"
  let ?w2 = "?w1\<lparr>files := (files ?w1)(K \<mapsto> V2), calls := calls ?w1 @ [Open_creat K, Write_fd K V2]\<rparr>"
  have s1: "handle_client env w (Recv (''SET '' @ K @ '' '' @ V1 @ e1)) = Closed ''OK\<newline>'' ?w1"
    using assms(1,2,4,7,9) by (rule handle_SET)
  have s2: "handle_client env ?w1 (Recv (''SET '' @ K @ '' '' @ V2 @ e2)) = Closed ''OK\<newline>'' ?w2"
    using assms(1,3,5,8,10) by (rule handle_SET)
  have "files ?w2 K = Some V2" by simp
  then have g: "handle_client env ?w2 (Recv (''GET '' @ K @ e3)) =
      Closed (''OK\<newline>'' @ c_str (take 767 V2) @ ''\<newline>'')
        (?w2\<lparr>calls := calls ?w2 @ [Open_rdonly K, Read_fd K]\<rparr>)"
    using assms(1,6,11) by (intro handle_GET)
  show ?thesis
    unfolding main_loop.simps s1 s2 g outcome.case prod.case stored_value_read_back [OF assms(3)]
    by simp
qed

text \<open>
  \<^verbatim>\<open>SET foo hello world\<close>, \<^verbatim>\<open>SET foo bye\<close>, \<^verbatim>\<open>GET foo\<close>: the shorter value replaces the
  longer one.
\<close>

theorem set_set_get_overwrites_witness:
  "main_loop all_ok empty_dir
     [Accepted (Recv ''SET foo hello world\<newline>''), Accepted (Recv ''SET foo bye\<newline>''),
      Accepted (Recv ''GET foo\<newline>'')] =
   ([''OK\<newline>'', ''OK\<newline>'', ''OK\<newline>bye\<newline>''],
    \<lparr>files = [''foo'' \<mapsto> ''bye''],
     calls = [Open_creat ''foo'', Write_fd ''foo'' ''hello world'', Open_creat ''foo'',
              Write_fd ''foo'' ''bye'', Open_rdonly ''foo'', Read_fd ''foo'']\<rparr>,
    None)"
  using set_set_get_overwrites [of "''foo''" "''hello world''" "''bye''" "[LF]" "[LF]" "[LF]" all_ok empty_dir]
  by (simp add: valid_key_def valid_value_def token_def isspace_def line_end_def
      set_succeeds_def get_succeeds_def all_ok_def empty_dir_def)

text \<open>
  As stated, for all values within the length bounds, C7 fails: a second value that
  begins with a tab is stored without the tab.
\<close>

theorem overwrite_leading_tab_counterexample:
  "fst (main_loop all_ok empty_dir
          [Accepted (Recv (''SET '' @ ''k'' @ '' '' @ ''a'')),
           Accepted (Recv (''SET '' @ ''k'' @ '' '' @ [CHR 0x09, CHR ''b''])),
           Accepted (Recv (''GET '' @ ''k''))])
     = [''OK\<newline>'', ''OK\<newline>'', ''OK\<newline>b\<newline>'']
   \<and> files (fst (snd (main_loop all_ok empty_dir
          [Accepted (Recv (''SET '' @ ''k'' @ '' '' @ ''a'')),
           Accepted (Recv (''SET '' @ ''k'' @ '' '' @ [CHR 0x09, CHR ''b'']))]))) ''k'' = Some ''b''
   \<and> ''b'' \<noteq> [CHR 0x09, CHR ''b'']
   \<and> ''OK\<newline>b\<newline>'' \<noteq> ''OK\<newline>'' @ [CHR 0x09, CHR ''b''] @ ''\<newline>''"
  by (simp add: handle_client_def sock_read_def BUFFER_SIZE_def c_str_def sscanf_def scan_s_def
      scan_not_nl_def skip_ws_def isspace_def sock_write_def snprintf_def MAX_VALUE_LEN_def
      parse_message_def get_command_type_def sys_open_creat_def sys_write_def sys_open_rdonly_def
      sys_read_def all_ok_def empty_dir_def Let_def)

subsection \<open>C8: an unknown command\<close>

text \<open>
  Claim C8. When at least two items are parsed and the command is none of \<^verbatim>\<open>SET\<close>,
  \<^verbatim>\<open>GET\<close>, \<^verbatim>\<open>DEL\<close>, the command type is \<^verbatim>\<open>CMD_UNKNOWN\<close>, the reply is exactly
  \<^verbatim>\<open>ERROR\n\<close>, and no call is made on the store.
\<close>

theorem unknown_command_error:
  assumes "bs \<noteq> []"
    and "sscanf (c_str (take (BUFFER_SIZE - 1) bs)) = (n, command, key, v)"
    and "2 \<le> n"
    and "command \<noteq> ''SET''" and "command \<noteq> ''GET''" and "command \<noteq> ''DEL''"
  shows "get_command_type command = CMD_UNKNOWN
     \<and> handle_client env w (Recv bs) = Closed ''ERROR\<newline>'' w"
proof -
  have u: "get_command_type command = CMD_UNKNOWN"
    using assms(4,5,6) by (simp add: get_command_type_def)
  have sc: "sscanf (c_str (take 1023 bs)) = (n, command, key, v)"
    using assms(2) by (simp add: BUFFER_SIZE_def)
  have "handle_client env w (Recv bs) = Closed ''ERROR\<newline>'' w"
    unfolding handle_client_buffer [OF assms(1)] sc
    using assms(3) by (simp add: parse_message_def u sock_write_def)
  with u show ?thesis by simp
qed

text \<open>
  The request \<^verbatim>\<open>FOO bar\<close>.
\<close>

theorem unknown_command_error_witness:
  "handle_client all_ok empty_dir (Recv ''FOO bar'') = Closed ''ERROR\<newline>'' empty_dir"
  using unknown_command_error [of "''FOO bar''" 2 "''FOO''" "''bar''" "[]" all_ok empty_dir]
  by (simp add: BUFFER_SIZE_def c_str_def sscanf_def scan_s_def scan_not_nl_def skip_ws_def isspace_def)

subsection \<open>C9: a first token longer than 15 bytes\<close>

text \<open>
  Claim C9, as amended. When the first token of the buffer is longer than 15 bytes, its
  first 15 bytes become the command and the 255 bytes after them (or fewer, if the token
  ends) become the key, so at least two items are parsed. Exactly two are parsed when the
  token has at most 270 bytes and only white space follows it; when the token is longer
  than 270 bytes its remaining bytes begin the value and three are parsed. The command has
  15 bytes, so it is \<^verbatim>\<open>CMD_UNKNOWN\<close>: the request is dispatched and answered \<^verbatim>\<open>ERROR\n\<close>,
  not rejected as malformed, and the store is untouched.
\<close>

theorem long_first_token_split:
  assumes "bs \<noteq> []"
  shows "let b = c_str (take (BUFFER_SIZE - 1) bs);
             tok = takeWhile (\<lambda>c. \<not> isspace c) (skip_ws b)
         in 15 < length tok \<longrightarrow>
              (\<exists>n v. sscanf b = (n, take 15 tok, take 255 (drop 15 tok), v) \<and> 2 \<le> n
                 \<and> (length tok \<le> 270 \<and> skip_ws (drop (length tok) (skip_ws b)) = [] \<longrightarrow> n = 2 \<and> v = [])
                 \<and> (270 < length tok \<longrightarrow> n = 3 \<and> v \<noteq> []))
              \<and> get_command_type (take 15 tok) = CMD_UNKNOWN
              \<and> handle_client env w (Recv bs) = Closed ''ERROR\<newline>'' w"
proof -
  define b where "b = c_str (take 1023 bs)"
  define tok where "tok = takeWhile (\<lambda>c. \<not> isspace c) (skip_ws b)"
  have goal: "(\<exists>n v. sscanf b = (n, take 15 tok, take 255 (drop 15 tok), v) \<and> 2 \<le> n
                 \<and> (length tok \<le> 270 \<and> skip_ws (drop (length tok) (skip_ws b)) = [] \<longrightarrow> n = 2 \<and> v = [])
                 \<and> (270 < length tok \<longrightarrow> n = 3 \<and> v \<noteq> []))
              \<and> get_command_type (take 15 tok) = CMD_UNKNOWN
              \<and> handle_client env w (Recv bs) = Closed ''ERROR\<newline>'' w"
    if long: "15 < length tok"
  proof -
    let ?after = "skip_ws (drop (min 270 (length tok)) (skip_ws b))"
    have sc: "sscanf b =
       (case scan_not_nl 767 ?after of
          None \<Rightarrow> (2, take 15 tok, take 255 (drop 15 tok), [])
        | Some (v, r) \<Rightarrow> (3, take 15 tok, take 255 (drop 15 tok), v))"
      using long unfolding tok_def by (rule sscanf_long_first_token)
    have unk: "get_command_type (take 15 tok) = CMD_UNKNOWN"
      using long by (intro command_15_unknown) simp
    have two: "scan_not_nl 767 ?after = None"
      if "length tok \<le> 270" and "skip_ws (drop (length tok) (skip_ws b)) = []"
      using that by (simp add: min_def scan_not_nl_def)
    have three: "scan_not_nl 767 ?after \<noteq> None" if long2: "270 < length tok"
    proof -
      obtain rest where s: "skip_ws b = tok @ rest"
        using takeWhile_nonws_split [of "skip_ws b"] unfolding tok_def by blast
      have nonws: "\<forall>c\<in>set tok. \<not> isspace c"
        unfolding tok_def by (auto dest: set_takeWhileD)
      have d: "drop (min 270 (length tok)) (skip_ws b) = drop 270 tok @ rest"
        using long2 by (simp add: s)
      have "drop 270 tok \<noteq> []"
        using long2 by simp
      then obtain a as where da: "drop 270 tok = a # as"
        by (cases "drop 270 tok") simp_all
      then have "a \<in> set tok"
        by (metis in_set_dropD list.set_intros(1))
      then have a: "\<not> isspace a"
        using nonws by simp
      have "a \<noteq> LF"
        using a by (auto simp: isspace_def)
      have "skip_ws (a # as @ rest) = a # as @ rest"
        using a by (simp add: skip_ws_def)
      then have after: "?after = a # as @ rest"
        unfolding d da by simp
      show ?thesis
        unfolding after using \<open>a \<noteq> LF\<close> by (simp add: scan_not_nl_def)
    qed
    show ?thesis
    proof (cases "scan_not_nl 767 ?after")
      case None
      then have s2: "sscanf b = (2, take 15 tok, take 255 (drop 15 tok), [])"
        using sc by simp
      have "handle_client env w (Recv bs) = Closed ''ERROR\<newline>'' w"
        unfolding handle_client_buffer [OF assms] b_def [symmetric] s2
        by (simp add: parse_message_def unk sock_write_def)
      then show ?thesis
        using s2 unk three None by auto
    next
      case (Some p)
      obtain v r where p: "p = (v, r)" by (cases p)
      have s3: "sscanf b = (3, take 15 tok, take 255 (drop 15 tok), v)"
        using sc Some p by simp
      have "handle_client env w (Recv bs) = Closed ''ERROR\<newline>'' w"
        unfolding handle_client_buffer [OF assms] b_def [symmetric] s3
        by (simp add: parse_message_def unk sock_write_def)
      have "v \<noteq> []"
        using Some p by (auto simp: scan_not_nl_def Let_def split: if_splits)
      then show ?thesis
        using s3 unk two Some \<open>handle_client env w (Recv bs) = Closed ''ERROR\<newline>'' w\<close> by auto
    qed
  qed
  then show ?thesis
    unfolding Let_def BUFFER_SIZE_def b_def tok_def by simp
qed

text \<open>
  A single token of 19 bytes.
\<close>

theorem long_first_token_split_witness:
  "sscanf ''ABCDEFGHIJKLMNOPQRS'' = (2, ''ABCDEFGHIJKLMNO'', ''PQRS'', [])
   \<and> get_command_type ''ABCDEFGHIJKLMNO'' = CMD_UNKNOWN
   \<and> handle_client all_ok empty_dir (Recv ''ABCDEFGHIJKLMNOPQRS'') = Closed ''ERROR\<newline>'' empty_dir"
  using long_first_token_split [of "''ABCDEFGHIJKLMNOPQRS''" all_ok empty_dir]
  by (simp add: Let_def BUFFER_SIZE_def c_str_def skip_ws_def isspace_def)

text \<open>
  As stated, C9 has the token split in two and the line parsed as two tokens. A single
  token of 271 bytes is split in three: command, key and a value of one byte.
\<close>

theorem long_token_three_items_counterexample:
  "sscanf (replicate 271 (CHR ''A'')) =
     (3, replicate 15 (CHR ''A''), replicate 255 (CHR ''A''), ''A'')
   \<and> fst (sscanf (replicate 271 (CHR ''A''))) \<noteq> 2"
proof -
  have ns: "\<not> isspace (CHR ''A'')"
    by (simp add: isspace_def)
  have sk: "skip_ws (replicate 271 (CHR ''A'')) = replicate 271 (CHR ''A'')"
    using ns by (simp add: skip_ws_def)
  have tw: "takeWhile (\<lambda>c. \<not> isspace c) (replicate 271 (CHR ''A'')) = replicate 271 (CHR ''A'')"
    using ns by simp
  have "sscanf (replicate 271 (CHR ''A'')) =
     (3, replicate 15 (CHR ''A''), replicate 255 (CHR ''A''), ''A'')"
    using sscanf_long_first_token [of "replicate 271 (CHR ''A'')"] ns
    by (simp add: sk tw scan_not_nl_def skip_ws_def)
  then show ?thesis by simp
qed

subsection \<open>C10: white space before the value\<close>

text \<open>
  Claim C10. In a request \<^verbatim>\<open>SET K\<close>, white space, rest of the line, the whole run of white
  space after the key is skipped before the value is captured: the value is the rest
  without its leading white space, up to the first newline and 767 bytes. It never
  begins with a white-space byte, and it is what a successful SET stores.
\<close>

theorem value_separator_discarded:
  assumes "valid_key K" and "sp \<noteq> []" and "\<forall>c\<in>set sp. isspace c"
  shows "let val = take 767 (takeWhile (\<lambda>c. c \<noteq> LF) (skip_ws rest)) in
           sscanf (''SET '' @ K @ sp @ rest) = (if val = [] then 2 else 3, ''SET'', K, val)
           \<and> (val = [] \<or> \<not> isspace (hd val))
           \<and> (NUL \<notin> set (sp @ rest) \<and> length (''SET '' @ K @ sp @ rest) \<le> 1023
                \<and> set_succeeds env K val \<longrightarrow>
              handle_client env w (Recv (''SET '' @ K @ sp @ rest)) =
                Closed ''OK\<newline>''
                  (w\<lparr>files := (files w)(K \<mapsto> val),
                    calls := calls w @ [Open_creat K, Write_fd K val]\<rparr>))"
proof -
  define val where "val = take 767 (takeWhile (\<lambda>c. c \<noteq> LF) (skip_ws rest))"
  have k: "token K" "length K \<le> 255"
    using assms(1) by (simp_all add: valid_key_def)
  have "sscanf (''SET'' @ '' '' @ K @ sp @ rest) =
      (let v = take 767 (takeWhile (\<lambda>c. c \<noteq> LF) (skip_ws rest))
       in (if v = [] then 2 else 3, ''SET'', K, v))"
    by (rule sscanf_value_general [OF k token_SET _ _ _ assms(2,3)]) (simp_all add: isspace_def)
  then have sc: "sscanf (''SET '' @ K @ sp @ rest) = (if val = [] then 2 else 3, ''SET'', K, val)"
    by (simp add: val_def Let_def)
  have hd: "val = [] \<or> \<not> isspace (hd val)"
    unfolding val_def by (rule captured_value_head)
  have stored: "handle_client env w (Recv (''SET '' @ K @ sp @ rest)) =
                Closed ''OK\<newline>''
                  (w\<lparr>files := (files w)(K \<mapsto> val),
                    calls := calls w @ [Open_creat K, Write_fd K val]\<rparr>)"
    if nul: "NUL \<notin> set (sp @ rest)" and len: "length (''SET '' @ K @ sp @ rest) \<le> 1023"
      and ok: "set_succeeds env K val"
  proof -
    have "NUL \<notin> set (''SET '' @ K @ sp @ rest)"
      using nul valid_key_no_NUL [OF assms(1)] by simp
    then have buf: "c_str (take 1023 (''SET '' @ K @ sp @ rest)) = ''SET '' @ K @ sp @ rest"
      using len by (rule buffer_of_line)
    have ne: "''SET '' @ K @ sp @ rest \<noteq> []" by simp
    have "handle_client env w (Recv (''SET '' @ K @ sp @ rest)) =
        (case parse_message env w ''SET'' K val of (reply, w') \<Rightarrow> Closed reply w')"
      unfolding handle_client_buffer [OF ne] buf sc by simp
    then show ?thesis
      by (simp add: parse_message_SET [OF ok])
  qed
  show ?thesis
    unfolding Let_def val_def [symmetric] using sc hd stored by blast
qed

text \<open>
  Four spaces between the key and the value.
\<close>

theorem value_separator_discarded_witness:
  "sscanf ''SET foo    hello world'' = (3, ''SET'', ''foo'', ''hello world'')
   \<and> handle_client all_ok empty_dir (Recv ''SET foo    hello world'') =
       Closed ''OK\<newline>''
         \<lparr>files = [''foo'' \<mapsto> ''hello world''],
          calls = [Open_creat ''foo'', Write_fd ''foo'' ''hello world'']\<rparr>"
  using value_separator_discarded [of "''foo''" "''   ''" "'' hello world''" all_ok empty_dir]
  by (simp add: Let_def valid_key_def token_def isspace_def skip_ws_def set_succeeds_def
      all_ok_def empty_dir_def)

end
